theory Spec2Isabelle
  imports Main "HOL-Library.Sublist"
begin

section \<open>Python string primitives used by \<^verbatim>\<open>extract_docs_improved.py\<close>\<close>

text \<open>
  A Python \<^verbatim>\<open>str\<close> is modelled as a \<^typ>\<open>string\<close>; a \<^typ>\<open>char\<close> stands for one code
  point below 256, so \<^const>\<open>length\<close> is Python's \<^verbatim>\<open>len\<close>.

  The source writes its line separator as the literal \<^verbatim>\<open>'\\n'\<close>: in Python this is the
  string of the two characters backslash and \<^verbatim>\<open>n\<close>, not a line feed. The same holds for
  \<^verbatim>\<open>'|\\t -:'\<close> (six characters: pipe, backslash, \<^verbatim>\<open>t\<close>, space, minus, colon).
\<close>

abbreviation (input) BSL :: char where "BSL \<equiv> CHR 0x5C"
abbreviation (input) LF :: char where "LF \<equiv> CHR 0x0A"
abbreviation (input) CR :: char where "CR \<equiv> CHR 0x0D"
abbreviation (input) PIPE :: char where "PIPE \<equiv> CHR ''|''"

text \<open>The value of the Python literal \<^verbatim>\<open>'\\n'\<close>.\<close>

definition NL2 :: string where
  "NL2 = [BSL, CHR ''n'']"

text \<open>\<^verbatim>\<open>str.isspace\<close> on one character (code points below 256).\<close>

definition isspace :: "char \<Rightarrow> bool" where
  "isspace c \<longleftrightarrow> c \<in> set [CHR 0x09, CHR 0x0A, CHR 0x0B, CHR 0x0C, CHR 0x0D,
     CHR 0x1C, CHR 0x1D, CHR 0x1E, CHR 0x1F, CHR 0x20, CHR 0x85, CHR 0xA0]"

text \<open>\<^verbatim>\<open>s.strip()\<close>.\<close>

definition strip :: "string \<Rightarrow> string" where
  "strip s = rev (dropWhile isspace (rev (dropWhile isspace s)))"

text \<open>The line boundaries of \<^verbatim>\<open>str.splitlines\<close> (code points below 256).\<close>

definition is_linebreak :: "char \<Rightarrow> bool" where
  "is_linebreak c \<longleftrightarrow> c \<in> set [CHR 0x0A, CHR 0x0B, CHR 0x0C, CHR 0x0D,
     CHR 0x1C, CHR 0x1D, CHR 0x1E, CHR 0x85]"

text \<open>\<^verbatim>\<open>s.splitlines()\<close>: a carriage return followed by a line feed is one boundary, and
  no empty last line is produced for a text that ends with a boundary. The first argument
  is the line read so far.\<close>

fun splitlines_from :: "string \<Rightarrow> string \<Rightarrow> string list" where
  "splitlines_from cur [] = (if cur = [] then [] else [cur])"
| "splitlines_from cur [c] =
     (if is_linebreak c then [cur] else [cur @ [c]])"
| "splitlines_from cur (c # d # cs) =
     (if c = CR \<and> d = LF then cur # splitlines_from [] cs
      else if is_linebreak c then cur # splitlines_from [] (d # cs)
      else splitlines_from (cur @ [c]) (d # cs))"

definition splitlines :: "string \<Rightarrow> string list" where
  "splitlines s = splitlines_from [] s"

text \<open>\<^verbatim>\<open>s.split('\\n')\<close>: the pieces between the successive occurrences, from the left,
  of the two characters backslash, \<^verbatim>\<open>n\<close>.\<close>

fun split_nl :: "string \<Rightarrow> string list" where
  "split_nl [] = [[]]"
| "split_nl [c] = [[c]]"
| "split_nl (c # d # cs) =
     (if c = BSL \<and> d = CHR ''n'' then [] # split_nl cs
      else (case split_nl (d # cs) of
              [] \<Rightarrow> [[c]]
            | p # ps \<Rightarrow> (c # p) # ps))"

text \<open>\<^verbatim>\<open>s.split('|')\<close>.\<close>

fun split_pipe :: "string \<Rightarrow> string list" where
  "split_pipe [] = [[]]"
| "split_pipe (c # cs) =
     (if c = PIPE then [] # split_pipe cs
      else (case split_pipe cs of
              [] \<Rightarrow> [[c]]
            | p # ps \<Rightarrow> (c # p) # ps))"

text \<open>\<^verbatim>\<open>sep.join(xs)\<close>.\<close>

fun join :: "string \<Rightarrow> string list \<Rightarrow> string" where
  "join sep [] = []"
| "join sep [x] = x"
| "join sep (x # y # ys) = x @ sep @ join sep (y # ys)"

text \<open>\<^verbatim>\<open>s.replace('|', ' ')\<close>.\<close>

definition replace_pipe :: "string \<Rightarrow> string" where
  "replace_pipe s = map (\<lambda>c. if c = PIPE then CHR '' '' else c) s"

text \<open>\<^verbatim>\<open>s.startswith('|')\<close> and \<^verbatim>\<open>s.endswith('|')\<close>.\<close>

definition startswith_pipe :: "string \<Rightarrow> bool" where
  "startswith_pipe s \<longleftrightarrow> (case s of [] \<Rightarrow> False | c # _ \<Rightarrow> c = PIPE)"

definition endswith_pipe :: "string \<Rightarrow> bool" where
  "endswith_pipe s \<longleftrightarrow> (case rev s of [] \<Rightarrow> False | c # _ \<Rightarrow> c = PIPE)"

text \<open>The slice \<^verbatim>\<open>xs[1:-1]\<close>; it is empty for a list of fewer than three elements.\<close>

definition inner :: "'a list \<Rightarrow> 'a list" where
  "inner xs = butlast (tl xs)"

section \<open>\<^verbatim>\<open>format_markdown_table\<close>\<close>

text \<open>Line 176: the trimmed non-blank pieces of the trimmed text.\<close>

definition table_lines :: "string \<Rightarrow> string list" where
  "table_lines table_text =
     map strip (filter (\<lambda>line. strip line \<noteq> []) (split_nl (strip table_text)))"

text \<open>Line 186: every character is one of the six characters of \<^verbatim>\<open>'|\\t -:'\<close>.\<close>

definition is_separator :: "string \<Rightarrow> bool" where
  "is_separator line \<longleftrightarrow>
     (\<forall>c \<in> set line. c \<in> set [PIPE, BSL, CHR ''t'', CHR '' '', CHR ''-'', CHR '':''])"

text \<open>Lines 184-188.\<close>

definition data_lines :: "string list \<Rightarrow> string list" where
  "data_lines lines =
     filter (\<lambda>line. \<not> is_separator line \<and> strip line \<noteq> []) (tl lines)"

text \<open>Line 195.\<close>

definition headers_of :: "string \<Rightarrow> string list" where
  "headers_of header_line =
     map strip (filter (\<lambda>cell. strip cell \<noteq> []) (inner (split_pipe header_line)))"

text \<open>Lines 206-211: the parts of one row, from the enumerated cells.\<close>

definition row_text :: "string list \<Rightarrow> string list \<Rightarrow> string list" where
  "row_text headers cells =
     map (\<lambda>(i, cell).
            if i < length headers \<and> headers ! i \<noteq> [] then headers ! i @ '': '' @ cell
            else cell)
         (filter (\<lambda>(i, cell). cell \<noteq> []) (enumerate 0 cells))"

text \<open>Lines 202-213: the formatted line a data line contributes, if any.\<close>

definition format_row :: "string list \<Rightarrow> string \<Rightarrow> string option" where
  "format_row headers line =
     (if startswith_pipe line \<and> endswith_pipe line then
        (let cells = map strip (inner (split_pipe line)) in
         if cells \<noteq> [] \<and> (\<exists>cell \<in> set cells. cell \<noteq> []) then
           (let rt = row_text headers cells in
            if rt \<noteq> [] then Some (join '' | '' rt) else None)
         else None)
      else None)"

text \<open>Lines 198-213.\<close>

definition formatted_lines :: "string list \<Rightarrow> string list \<Rightarrow> string list" where
  "formatted_lines headers dls = List.map_filter (format_row headers) dls"

text \<open>The function. No operation of it can raise: the slices and \<^verbatim>\<open>split\<close> are total,
  \<^verbatim>\<open>lines[0]\<close> is read after the emptiness test and \<^verbatim>\<open>headers[i]\<close> behind
  \<^verbatim>\<open>i < len(headers)\<close>; so the result is a plain string.\<close>

definition format_markdown_table :: "string \<Rightarrow> string" where
  "format_markdown_table table_text =
     (let lines = table_lines table_text in
      if length lines < 1 then []
      else
        (let header_line = hd lines;
             dls = data_lines lines in
         if \<not> startswith_pipe header_line then strip (replace_pipe table_text)
         else
           (let headers = headers_of header_line;
                fls = formatted_lines headers dls in
            if fls = [] then strip (replace_pipe table_text)
            else join NL2 fls)))"


section \<open>\<^verbatim>\<open>extract_text_from_markdown\<close>\<close>

subsection \<open>Frontmatter and metadata lines (lines 16-45)\<close>

text \<open>The loop of lines 23-26 over \<^verbatim>\<open>enumerate(lines[1:], 1)\<close>; \<open>None\<close> is the initial
  \<^verbatim>\<open>end_frontmatter = -1\<close>.\<close>

fun find_end_frontmatter :: "nat \<Rightarrow> string list \<Rightarrow> nat option" where
  "find_end_frontmatter i [] = None"
| "find_end_frontmatter i (line # rest) =
     (if strip line = ''---'' then Some i else find_end_frontmatter (Suc i) rest)"

definition remove_frontmatter :: "string \<Rightarrow> string" where
  "remove_frontmatter markdown_content =
     (let lines = splitlines markdown_content in
      if lines \<noteq> [] \<and> strip (hd lines) = ''---'' then
        (case find_end_frontmatter 1 (tl lines) of
           None \<Rightarrow> markdown_content
         | Some end_frontmatter \<Rightarrow>
             if end_frontmatter > 0 then join NL2 (drop (end_frontmatter + 1) lines)
             else markdown_content)
      else markdown_content)"

definition metadata_keys :: "string list" where
  "metadata_keys = [''title'', ''description'', ''contentType'', ''tags'', ''hide'',
     ''aliases'', ''priority'', ''redirect_from'']"

definition is_metadata_line :: "string \<Rightarrow> bool" where
  "is_metadata_line line \<longleftrightarrow>
     (let stripped_line = strip line in
      prefix ''https://www.notion.so/n8n/Frontmatter-'' stripped_line
      \<or> (\<exists>key \<in> set metadata_keys. prefix (key @ '':'') stripped_line))"

definition remove_metadata_lines :: "string \<Rightarrow> string" where
  "remove_metadata_lines content =
     join NL2 (filter (\<lambda>line. \<not> is_metadata_line line) (splitlines content))"

subsection \<open>The regular-expression passes (lines 47-99)\<close>

text \<open>Every pattern below matches at least one character, so \<^verbatim>\<open>re.sub\<close> scans from the
  left: where the pattern matches, the match is replaced and the scan goes on behind it;
  elsewhere the character is kept.

  The text behind the first occurrence of \<open>pat\<close>: what a lazy \<^verbatim>\<open>.*?\<close> followed by the
  literal \<open>pat\<close> leaves, with \<^verbatim>\<open>re.DOTALL\<close>.\<close>

fun after_first :: "string \<Rightarrow> string \<Rightarrow> string option" where
  "after_first pat [] = (if pat = [] then Some [] else None)"
| "after_first pat (c # cs) =
     (if prefix pat (c # cs) then Some (drop (length pat) (c # cs)) else after_first pat cs)"

text \<open>The same without \<^verbatim>\<open>re.DOTALL\<close>: the dot does not match a line feed.\<close>

fun after_first_in_line :: "string \<Rightarrow> string \<Rightarrow> string option" where
  "after_first_in_line pat [] = (if pat = [] then Some [] else None)"
| "after_first_in_line pat (c # cs) =
     (if prefix pat (c # cs) then Some (drop (length pat) (c # cs))
      else if c = LF then None
      else after_first_in_line pat cs)"

lemma after_first_length: "after_first pat s = Some r \<Longrightarrow> length r \<le> length s"
  by (induction s) (auto split: if_splits)

lemma after_first_in_line_length: "after_first_in_line pat s = Some r \<Longrightarrow> length r \<le> length s"
  by (induction s) (auto split: if_splits)

text \<open>\<^verbatim>\<open>re.sub(opn + '.*?' + cls, '', s, flags=re.DOTALL)\<close> for a non-empty literal \<open>opn\<close>:
  lines 49, 67 and 73.\<close>

function remove_spans :: "string \<Rightarrow> string \<Rightarrow> string \<Rightarrow> string" where
  "remove_spans opn cls [] = []"
| "remove_spans [] cls (c # cs) = c # cs"
| "remove_spans (p # ps) cls (c # cs) =
     (if prefix (p # ps) (c # cs) then
        (case after_first cls (drop (length ps) cs) of
           Some rest \<Rightarrow> remove_spans (p # ps) cls rest
         | None \<Rightarrow> c # remove_spans (p # ps) cls cs)
      else c # remove_spans (p # ps) cls cs)"
  by pat_completeness auto
termination
  by (relation "measure (\<lambda>(opn, cls, s). length s)")
     (auto dest!: after_first_length simp: less_Suc_eq_le)

text \<open>Line 55: \<^verbatim>\<open>re.sub(r'`([^`]+)`', r'\\1', s)\<close>. The replacement template
  \<^verbatim>\<open>r'\\1'\<close> is an escaped backslash followed by the digit 1, so every match is replaced
  by these two characters, not by the group.\<close>

function unwrap_inline_code :: "string \<Rightarrow> string" where
  "unwrap_inline_code [] = []"
| "unwrap_inline_code (c # cs) =
     (if c = CHR 0x60 \<and> takeWhile (\<lambda>x. x \<noteq> CHR 0x60) cs \<noteq> []
         \<and> dropWhile (\<lambda>x. x \<noteq> CHR 0x60) cs \<noteq> []
      then [BSL, CHR ''1''] @ unwrap_inline_code (tl (dropWhile (\<lambda>x. x \<noteq> CHR 0x60) cs))
      else c # unwrap_inline_code cs)"
  by pat_completeness auto
termination
  by (relation "measure length")
     (auto simp: less_Suc_eq_le intro: le_trans[OF diff_le_self length_dropWhile_le])

text \<open>Line 61: the pattern \<^verbatim>\<open>r'\\[\\[.*?\\]\\]'\<close> is a backslash, one character of the
  class \<^verbatim>\<open>[\\[.*?\\]\<close> (backslash, bracket, dot, star, question mark), a backslash and a
  closing bracket.\<close>

fun remove_macros :: "string \<Rightarrow> string" where
  "remove_macros (a # b # c # d # cs) =
     (if a = BSL \<and> b \<in> set [BSL, CHR ''['', CHR ''.'', CHR ''*'', CHR ''?'']
         \<and> c = BSL \<and> d = CHR '']''
      then remove_macros cs
      else a # remove_macros (b # c # d # cs))"
| "remove_macros s = s"

text \<open>Line 79: the pattern \<^verbatim>\<open>r'--8<--\\s*".*?"'\<close> is the marker, a backslash, any number
  of letters \<^verbatim>\<open>s\<close>, and a double-quoted span on one line.\<close>

function remove_snippets :: "string \<Rightarrow> string" where
  "remove_snippets [] = []"
| "remove_snippets (c # cs) =
     (if prefix (''--8<--'' @ [BSL]) (c # cs) then
        (case dropWhile (\<lambda>x. x = CHR ''s'') (drop 6 cs) of
           [] \<Rightarrow> c # remove_snippets cs
         | q # r \<Rightarrow>
             if q = CHR 0x22 then
               (case after_first_in_line [CHR 0x22] r of
                  Some rest \<Rightarrow> remove_snippets rest
                | None \<Rightarrow> c # remove_snippets cs)
             else c # remove_snippets cs)
      else c # remove_snippets cs)"
  by pat_completeness auto
termination
proof (relation "measure length", simp_all)
  fix cs :: string and q r rest
  assume d: "dropWhile (\<lambda>x. x = CHR ''s'') (drop 6 cs) = CHR 0x22 # r"
    and a: "after_first_in_line [CHR 0x22] r = Some rest"
  have "length (dropWhile (\<lambda>x. x = CHR ''s'') (drop 6 cs)) \<le> length (drop 6 cs)"
    by (rule length_dropWhile_le)
  then have "Suc (length r) \<le> length cs" unfolding d by simp
  moreover have "length rest \<le> length r" using a by (rule after_first_in_line_length)
  ultimately show "length rest < Suc (length cs)" by simp
qed

text \<open>Line 85: in \<^verbatim>\<open>r'https?://[^\\s\\)]+'\<close> the class excludes the backslash, the letter
  \<^verbatim>\<open>s\<close> and the closing parenthesis.\<close>

definition url_char :: "char \<Rightarrow> bool" where
  "url_char x \<longleftrightarrow> x \<notin> set [BSL, CHR ''s'', CHR '')'']"

function remove_urls :: "string \<Rightarrow> string" where
  "remove_urls [] = []"
| "remove_urls (c # cs) =
     (case (if prefix ''https://'' (c # cs) then Some (drop 7 cs)
            else if prefix ''http://'' (c # cs) then Some (drop 6 cs)
            else None) of
        None \<Rightarrow> c # remove_urls cs
      | Some r \<Rightarrow>
          if takeWhile url_char r \<noteq> [] then remove_urls (dropWhile url_char r)
          else c # remove_urls cs)"
  by pat_completeness auto
termination
proof (relation "measure length", simp_all)
  fix c :: char and cs r :: string
  assume "(if CHR ''h'' = c \<and> prefix ''ttps://'' cs then Some (drop 7 cs)
           else if prefix ''http://'' (c # cs) then Some (drop 6 cs) else None) = Some r"
  then have "length r \<le> length cs" by (auto split: if_splits)
  then have "length (dropWhile url_char r) \<le> length cs"
    by (rule le_trans[OF length_dropWhile_le])
  then show "length (dropWhile url_char r) < Suc (length cs)" by simp
qed

text \<open>Lines 91 and 97: the patterns \<^verbatim>\<open>r'\\[([^\\]]*)\\]\\([^\\)]*\\)'\<close> and
  \<^verbatim>\<open>r'\\[([^\\]]*)\\]\\[[^\\]]*\\]'\<close> begin with a backslash, the class
  \<^verbatim>\<open>[([^\\]\<close>, a starred bracket and then a closing parenthesis that nothing opened:
  they do not compile, \<^verbatim>\<open>re.sub\<close> raises \<^verbatim>\<open>re.error\<close>, and \<^verbatim>\<open>except: pass\<close>
  leaves the content as it was.\<close>

definition unwrap_markdown_links :: "string \<Rightarrow> string" where
  "unwrap_markdown_links s = s"

definition unwrap_reference_links :: "string \<Rightarrow> string" where
  "unwrap_reference_links s = s"

subsection \<open>Link definitions (lines 102-107)\<close>

text \<open>\<^verbatim>\<open>pat in s\<close>.\<close>

fun has_sub :: "string \<Rightarrow> string \<Rightarrow> bool" where
  "has_sub pat [] = (pat = [])"
| "has_sub pat (c # cs) = (prefix pat (c # cs) \<or> has_sub pat cs)"

definition remove_link_definitions :: "string \<Rightarrow> string" where
  "remove_link_definitions content =
     join NL2 (filter (\<lambda>line. \<not> (prefix ''['' (strip line) \<and> has_sub '']: '' line))
                 (split_nl content))"

text \<open>Lines 16-107 together.\<close>

definition clean_markup :: "string \<Rightarrow> string" where
  "clean_markup markdown_content =
     remove_link_definitions
      (unwrap_reference_links
       (unwrap_markdown_links
        (remove_urls
         (remove_snippets
          (remove_spans ''<!--'' ''-->''
           (remove_spans ''///'' ''///''
            (remove_macros
             (unwrap_inline_code
              (remove_spans [CHR 0x60, CHR 0x60, CHR 0x60] [CHR 0x60, CHR 0x60, CHR 0x60]
               (remove_metadata_lines
                (remove_frontmatter markdown_content)))))))))))"


subsection \<open>Table extraction (lines 111-137)\<close>

text \<open>\<^verbatim>\<open>lines[i].strip().startswith('|')\<close>.\<close>

definition is_pipe_line :: "string \<Rightarrow> bool" where
  "is_pipe_line line \<longleftrightarrow> startswith_pipe (strip line)"

text \<open>The decimal digits of a number, as the f-string prints \<^verbatim>\<open>len(table_placeholders)\<close>.\<close>

definition digit_char :: "nat \<Rightarrow> char" where
  "digit_char d = ''0123456789'' ! d"

function show_nat :: "nat \<Rightarrow> string" where
  "show_nat n = (if n < 10 then [digit_char n] else show_nat (n div 10) @ [digit_char (n mod 10)])"
  by pat_completeness auto
termination
  by (relation "measure id") auto

declare show_nat.simps [simp del]

text \<open>Line 128.\<close>

definition placeholder :: "nat \<Rightarrow> string" where
  "placeholder n = ''__TABLE_PLACEHOLDER_'' @ show_nat n @ ''__''"

text \<open>\<^verbatim>\<open>d[k] = v\<close> on a dictionary kept as the list of its items in insertion order: an
  existing key keeps its place, a new key goes to the end.\<close>

fun dict_set :: "string \<Rightarrow> string \<Rightarrow> (string \<times> string) list \<Rightarrow> (string \<times> string) list" where
  "dict_set k v [] = [(k, v)]"
| "dict_set k v ((k', v') # kvs) = (if k' = k then (k, v) # kvs else (k', v') # dict_set k v kvs)"

text \<open>\<^verbatim>\<open>s.replace(old, new, 1)\<close>: the first occurrence from the left; nothing changes when
  there is none.\<close>

fun replace_first :: "string \<Rightarrow> string \<Rightarrow> string \<Rightarrow> string" where
  "replace_first old new [] = (if old = [] then new else [])"
| "replace_first old new (c # cs) =
     (if prefix old (c # cs) then new @ drop (length old) (c # cs)
      else c # replace_first old new cs)"

text \<open>The \<^verbatim>\<open>while\<close> loop of lines 117-135 over the lines that are left, with the
  dictionary and the running content. The inner loop takes the longest run of pipe lines;
  \<^verbatim>\<open>lines\<close> is computed once, before the loop, from the content before any replacement.\<close>

function extract_tables_loop ::
  "string list \<Rightarrow> (string \<times> string) list \<Rightarrow> string \<Rightarrow> (string \<times> string) list \<times> string" where
  "extract_tables_loop [] table_placeholders processed_content =
     (table_placeholders, processed_content)"
| "extract_tables_loop (line # rest) table_placeholders processed_content =
     (if is_pipe_line line then
        (let table_text = join NL2 (line # takeWhile is_pipe_line rest);
             ph = placeholder (length table_placeholders);
             formatted_table = format_markdown_table table_text
         in extract_tables_loop (dropWhile is_pipe_line rest)
              (dict_set ph formatted_table table_placeholders)
              (replace_first table_text ph processed_content))
      else extract_tables_loop rest table_placeholders processed_content)"
  by pat_completeness auto
termination
  by (relation "measure (\<lambda>(lines, tp, pc). length lines)")
     (auto simp: less_Suc_eq_le length_dropWhile_le)

definition extract_tables :: "string \<Rightarrow> (string \<times> string) list \<times> string" where
  "extract_tables content = extract_tables_loop (split_nl content) [] content"

subsection \<open>Rendering, restoration and final cleanup (lines 139-169)\<close>

text \<open>\<^verbatim>\<open>s.replace(old, new)\<close>: every occurrence, from the left, without overlap. For an
  empty \<open>old\<close> Python puts \<open>new\<close> before every character and at the end.\<close>

function replace_all :: "string \<Rightarrow> string \<Rightarrow> string \<Rightarrow> string" where
  "replace_all old new [] = (if old = [] then new else [])"
| "replace_all old new (c # cs) =
     (if old = [] then new @ c # replace_all old new cs
      else if prefix old (c # cs) then new @ replace_all old new (drop (length old) (c # cs))
      else c # replace_all old new cs)"
  by pat_completeness auto
termination
  by (relation "measure (\<lambda>(old, new, s). length s)")
     (auto simp: less_Suc_eq_le neq_Nil_conv)

text \<open>Lines 153-154: the items of the dictionary in insertion order.\<close>

definition restore_tables :: "(string \<times> string) list \<Rightarrow> string \<Rightarrow> string" where
  "restore_tables table_placeholders text =
     fold (\<lambda>(ph, table) text. replace_all ph table text) table_placeholders text"

text \<open>Line 165: \<^verbatim>\<open>re.sub(r'\\n{3,}', '\\n\\n', s)\<close>. The pattern is a backslash followed by
  three or more letters \<^verbatim>\<open>n\<close>; in the replacement template (not a raw string: backslash,
  \<^verbatim>\<open>n\<close>, backslash, \<^verbatim>\<open>n\<close>) each \<^verbatim>\<open>\n\<close> is the escape for a line feed.\<close>

function collapse_newlines :: "string \<Rightarrow> string" where
  "collapse_newlines [] = []"
| "collapse_newlines (c # cs) =
     (if c = BSL \<and> 3 \<le> length (takeWhile (\<lambda>x. x = CHR ''n'') cs)
      then [LF, LF] @ collapse_newlines (dropWhile (\<lambda>x. x = CHR ''n'') cs)
      else c # collapse_newlines cs)"
  by pat_completeness auto
termination
  by (relation "measure length") (auto simp: less_Suc_eq_le length_dropWhile_le)

text \<open>Lines 158-169.\<close>

definition final_cleanup :: "string \<Rightarrow> string" where
  "final_cleanup text =
     (let lines = map strip (filter (\<lambda>line. strip line \<noteq> []) (splitlines text));
          final_text = join NL2 lines
      in strip (collapse_newlines final_text))"

text \<open>The whole function. Lines 141-148 call the libraries \<^verbatim>\<open>markdown\<close> and
  \<^verbatim>\<open>BeautifulSoup\<close>, which are not part of the repository: \<open>render\<close> stands for them,
  with \<open>None\<close> when they raise, in which case line 150 keeps the content.\<close>

definition extract_text_from_markdown :: "(string \<Rightarrow> string option) \<Rightarrow> string \<Rightarrow> string" where
  "extract_text_from_markdown render markdown_content =
     (let (table_placeholders, cleaned_markdown_content) =
            extract_tables (clean_markup markdown_content);
          text = (case render cleaned_markdown_content of
                    Some t \<Rightarrow> t
                  | None \<Rightarrow> cleaned_markdown_content)
      in final_cleanup (restore_tables table_placeholders text))"

section \<open>\<^verbatim>\<open>process_documentation\<close>\<close>

text \<open>A file met by \<^verbatim>\<open>os.walk\<close>: its name, its path relative to the base directory, and
  what reading it as UTF-8 gives (\<open>None\<close> when \<^verbatim>\<open>open\<close> or \<^verbatim>\<open>read\<close> raises).\<close>

record md_file =
  file_name :: string
  relative_path :: string
  read_result :: "string option"

record cleaned_record =
  file_path :: string
  content :: string

text \<open>Lines 234-255 for one file: the record appended to \<^verbatim>\<open>documentation_data\<close>, if
  any.\<close>

definition process_file :: "(string \<Rightarrow> string option) \<Rightarrow> md_file \<Rightarrow> cleaned_record option" where
  "process_file render f =
     (if suffix ''.md'' (file_name f) then
        (case read_result f of
           None \<Rightarrow> None
         | Some markdown_content \<Rightarrow>
             (let clean_text = extract_text_from_markdown render markdown_content in
              if clean_text \<noteq> [] \<and> length (strip clean_text) > 50
              then Some \<lparr>file_path = relative_path f, content = clean_text\<rparr>
              else None))
      else None)"

text \<open>Lines 227-255: the records collected over the files in the order of the walk.\<close>

definition process_documentation :: "(string \<Rightarrow> string option) \<Rightarrow> md_file list \<Rightarrow> cleaned_record list" where
  "process_documentation render files = List.map_filter (process_file render) files"


section \<open>Plain text\<close>


section \<open>Facts about the string primitives\<close>

lemma set_strip_subset: "set (strip s) \<subseteq> set s"
  unfolding strip_def by (auto dest!: set_dropWhileD)

lemma in_set_stripD: "x \<in> set (strip s) \<Longrightarrow> x \<in> set s"
  using set_strip_subset by (rule subsetD)

lemma strip_eq_Nil_iff: "strip s = [] \<longleftrightarrow> (\<forall>c \<in> set s. isspace c)"
proof
  assume "strip s = []"
  then have a: "\<forall>x \<in> set (dropWhile isspace s). isspace x"
    unfolding strip_def by simp
  have "dropWhile isspace s = []"
  proof (rule ccontr)
    assume n: "dropWhile isspace s \<noteq> []"
    then have "\<not> isspace (hd (dropWhile isspace s))" by (rule hd_dropWhile)
    moreover have "hd (dropWhile isspace s) \<in> set (dropWhile isspace s)" using n by simp
    ultimately show False using a by blast
  qed
  then show "\<forall>c \<in> set s. isspace c" by simp
next
  assume "\<forall>c \<in> set s. isspace c"
  then show "strip s = []" unfolding strip_def by (auto dest: set_dropWhileD)
qed


lemma split_pipe_no_pipe: "p \<in> set (split_pipe s) \<Longrightarrow> PIPE \<notin> set p"
  by (induction s arbitrary: p) (auto split: list.splits if_splits)


lemma split_nl_not_Nil: "split_nl s \<noteq> []"
  by (induction s rule: split_nl.induct) (auto split: list.splits)


lemma join_split_nl: "join NL2 (split_nl s) = s"
proof (induction s rule: split_nl.induct)
  case (3 c d cs)
  show ?case
  proof (cases "c = BSL \<and> d = CHR ''n''")
    case True
    with 3 show ?thesis
      using split_nl_not_Nil[of cs] by (cases "split_nl cs") (auto simp: NL2_def)
  next
    case False
    with 3 show ?thesis
      by (cases "split_nl (d # cs)"; cases "tl (split_nl (d # cs))") (auto simp: NL2_def)
  qed
qed (auto simp: NL2_def)

lemma in_set_innerD: "x \<in> set (inner xs) \<Longrightarrow> x \<in> set xs"
proof -
  assume "x \<in> set (inner xs)"
  then have "x \<in> set (tl xs)" unfolding inner_def by (rule in_set_butlastD)
  then show "x \<in> set xs" by (cases xs) auto
qed



lemma headers_of_no_pipe: "h \<in> set (headers_of l) \<Longrightarrow> PIPE \<notin> set h"
proof -
  assume "h \<in> set (headers_of l)"
  then obtain cell where c: "cell \<in> set (inner (split_pipe l))" and h: "h = strip cell"
    unfolding headers_of_def by auto
  from c have "cell \<in> set (split_pipe l)" by (rule in_set_innerD)
  then have "PIPE \<notin> set cell" by (rule split_pipe_no_pipe)
  then show ?thesis unfolding h by (metis in_set_stripD)
qed

lemma cells_no_pipe:
  "cell \<in> set (map strip (inner (split_pipe line))) \<Longrightarrow> PIPE \<notin> set cell"
proof -
  assume "cell \<in> set (map strip (inner (split_pipe line)))"
  then obtain p where c: "p \<in> set (inner (split_pipe line))" and h: "cell = strip p"
    by auto
  from c have "p \<in> set (split_pipe line)" by (rule in_set_innerD)
  then have "PIPE \<notin> set p" by (rule split_pipe_no_pipe)
  then show ?thesis unfolding h by (metis in_set_stripD)
qed

lemma row_text_parts:
  assumes "part \<in> set (row_text headers cells)"
  shows "\<exists>cell \<in> set cells. cell \<noteq> [] \<and>
           (part = cell \<or> (\<exists>h \<in> set headers. part = h @ '': '' @ cell))"
proof -
  from assms obtain i cell where ic: "(i, cell) \<in> set (enumerate 0 cells)" and ne: "cell \<noteq> []"
    and p: "part = (if i < length headers \<and> headers ! i \<noteq> [] then headers ! i @ '': '' @ cell
            else cell)"
    unfolding row_text_def by auto
  from ic have "cell \<in> set cells" by (auto simp: in_set_enumerate_eq)
  with ne p show ?thesis by (cases "i < length headers \<and> headers ! i \<noteq> []") auto
qed

lemma format_row_Some:
  assumes "format_row headers line = Some fl"
  shows "fl = join '' | '' (row_text headers (map strip (inner (split_pipe line))))
         \<and> row_text headers (map strip (inner (split_pipe line))) \<noteq> []"
  using assms unfolding format_row_def by (auto simp: Let_def split: if_splits)

lemma formatted_lines_mem:
  "fl \<in> set (formatted_lines headers dls) \<longleftrightarrow> (\<exists>line \<in> set dls. format_row headers line = Some fl)"
  unfolding formatted_lines_def by (force simp: List.map_filter_def image_iff)

lemma map_choice:
  "\<forall>x \<in> set xs. \<exists>r. x = f r \<and> P r \<Longrightarrow> \<exists>rs. xs = map f rs \<and> (\<forall>r \<in> set rs. P r)"
proof (induction xs)
  case Nil
  then show ?case by simp
next
  case (Cons x xs)
  then obtain rs where rs: "xs = map f rs" "\<forall>r \<in> set rs. P r" by auto
  from Cons.prems obtain r where r: "x = f r" "P r" by auto
  show ?case by (rule exI[of _ "r # rs"]) (use rs r in simp)
qed

lemma replace_pipe_no_pipe: "PIPE \<notin> set (replace_pipe s)"
  unfolding replace_pipe_def by auto







lemma isspace_pipe: "\<not> isspace PIPE"
  by (simp add: isspace_def)

lemma isspace_blank: "isspace (CHR '' '')"
  by (simp add: isspace_def)

lemma fallback_Nil_iff:
  "strip (replace_pipe t) = [] \<longleftrightarrow> (\<forall>c \<in> set t. isspace c \<or> c = PIPE)"
  unfolding strip_eq_Nil_iff replace_pipe_def using isspace_blank by auto


section \<open>Properties of the table formatter\<close>

text \<open>A table text whose lines are separated by line feeds is a single line for line 176,
  which splits at the two characters backslash, \<^verbatim>\<open>n\<close>.\<close>

lemma line_feed_table_is_one_line:
  "table_lines (''| A | B |'' @ [LF] @ ''| 1 | 2 |'') = [''| A | B |'' @ [LF] @ ''| 1 | 2 |'']"
  by code_simp

text \<open>
  C3 says that the table with the header line \<^verbatim>\<open>| A | B |\<close> and the single data row
  \<^verbatim>\<open>| 1 | 2 |\<close>, with or without a separator line between them, is formatted as exactly
  \<^verbatim>\<open>A: 1 | B: 2\<close>. The code breaks this at that Markdown table, whose lines end with line
  feeds: for line 176 the whole text is the header line, there is no data line, and
  line 217 returns the text with its pipes replaced by spaces, with and without the
  separator line.
\<close>

theorem line_feed_table_not_formatted:
  "format_markdown_table (''| A | B |'' @ [LF] @ ''| 1 | 2 |'')
     = ''A   B  '' @ [LF] @ ''  1   2''
   \<and> format_markdown_table (''| A | B |'' @ [LF] @ ''|---|---|'' @ [LF] @ ''| 1 | 2 |'')
     = ''A   B  '' @ [LF] @ '' --- --- '' @ [LF] @ ''  1   2''"
  by code_simp

text \<open>With the separator the code itself uses, as its caller joins the lines at line 127, the
  same table is formatted as \<^verbatim>\<open>A: 1 | B: 2\<close>: for every text whose lines, as line 176
  computes them, are the header and the row, with or without a separator line.\<close>

lemma header_and_row_format:
  assumes "table_lines t = [''| A | B |'', ''| 1 | 2 |'']
           \<or> (\<exists>sep. is_separator sep \<and> table_lines t = [''| A | B |'', sep, ''| 1 | 2 |''])"
  shows "format_markdown_table t = ''A: 1 | B: 2''"
proof -
  have h: "headers_of ''| A | B |'' = [''A'', ''B'']" by code_simp
  have r: "format_row [''A'', ''B''] ''| 1 | 2 |'' = Some ''A: 1 | B: 2''" by code_simp
  have s: "startswith_pipe ''| A | B |''" by code_simp
  have d: "\<not> is_separator ''| 1 | 2 |''" by code_simp
  have n: "strip ''| 1 | 2 |'' \<noteq> []" by code_simp
  from assms show ?thesis
  proof
    assume "table_lines t = [''| A | B |'', ''| 1 | 2 |'']"
    then show ?thesis
      using h r s d n
      by (simp add: format_markdown_table_def Let_def data_lines_def formatted_lines_def
          List.map_filter_def NL2_def)
  next
    assume "\<exists>sep. is_separator sep \<and> table_lines t = [''| A | B |'', sep, ''| 1 | 2 |'']"
    then obtain sep where "is_separator sep" "table_lines t = [''| A | B |'', sep, ''| 1 | 2 |'']"
      by blast
    then show ?thesis
      using h r s d n
      by (simp add: format_markdown_table_def Let_def data_lines_def formatted_lines_def
          List.map_filter_def NL2_def)
  qed
qed

lemma header_and_row_format_example:
  "is_separator ''|---|---|''
   \<and> format_markdown_table
        (join NL2 [''| A | B |'', ''|---|---|'', ''| 1 | 2 |'']) = ''A: 1 | B: 2''
   \<and> format_markdown_table (join NL2 [''| A | B |'', ''| 1 | 2 |'']) = ''A: 1 | B: 2''"
proof -
  have a: "table_lines (join NL2 [''| A | B |'', ''|---|---|'', ''| 1 | 2 |''])
           = [''| A | B |'', ''|---|---|'', ''| 1 | 2 |'']" by code_simp
  have b: "is_separator ''|---|---|''" by code_simp
  have c: "table_lines (join NL2 [''| A | B |'', ''| 1 | 2 |''])
           = [''| A | B |'', ''| 1 | 2 |'']" by code_simp
  have "\<exists>sep. is_separator sep
          \<and> table_lines (join NL2 [''| A | B |'', ''|---|---|'', ''| 1 | 2 |''])
              = [''| A | B |'', sep, ''| 1 | 2 |'']"
    by (rule exI[of _ "''|---|---|''"]) (use a b in simp)
  then have 1: "format_markdown_table
        (join NL2 [''| A | B |'', ''|---|---|'', ''| 1 | 2 |'']) = ''A: 1 | B: 2''"
    by (rule header_and_row_format[OF disjI2])
  have 2: "format_markdown_table (join NL2 [''| A | B |'', ''| 1 | 2 |'']) = ''A: 1 | B: 2''"
    using c by (rule header_and_row_format[OF disjI1])
  from b 1 2 show ?thesis by simp
qed

text \<open>
  C1, as stated: for a well-formed header line the output contains no pipe character.
  It fails on the table of two lines \<^verbatim>\<open>| A | B |\<close> and \<^verbatim>\<open>| 1 | 2 |\<close>: the header
  line starts and ends with a pipe and yields the labels A and B, and the output
  \<^verbatim>\<open>A: 1 | B: 2\<close> contains the pipe that line 213 puts between the parts of a row.
\<close>

theorem no_pipe_counterexample:
  "startswith_pipe (hd (table_lines (''| A | B |'' @ [CHR 0x5C, CHR ''n''] @ ''| 1 | 2 |'')))
   \<and> endswith_pipe (hd (table_lines (''| A | B |'' @ [CHR 0x5C, CHR ''n''] @ ''| 1 | 2 |'')))
   \<and> headers_of (hd (table_lines (''| A | B |'' @ [CHR 0x5C, CHR ''n''] @ ''| 1 | 2 |''))) = [''A'', ''B'']
   \<and> format_markdown_table (''| A | B |'' @ [CHR 0x5C, CHR ''n''] @ ''| 1 | 2 |'') = ''A: 1 | B: 2''
   \<and> PIPE \<in> set (format_markdown_table (''| A | B |'' @ [CHR 0x5C, CHR ''n''] @ ''| 1 | 2 |''))"
  by code_simp


text \<open>
  C1, amended: the only pipe characters of the output are those of the separator
  \<^verbatim>\<open>" | "\<close> between the parts of a row. The output is a sequence of rows joined by the
  line separator, each row a sequence of parts joined by \<^verbatim>\<open>" | "\<close>, and no part (a
  cell, or a label, a colon, a space and a cell) contains a pipe; the output of the guard
  of line 178 and of the fallbacks of lines 192 and 217 contains no pipe at all.
\<close>

theorem pipes_only_between_parts:
  "(\<exists>rows. format_markdown_table t = join NL2 (map (join '' | '') rows)
          \<and> (\<forall>row \<in> set rows. \<forall>part \<in> set row. PIPE \<notin> set part))
   \<and> (table_lines t = [] \<or> \<not> startswith_pipe (hd (table_lines t))
        \<or> formatted_lines (headers_of (hd (table_lines t))) (data_lines (table_lines t)) = []
       \<longrightarrow> PIPE \<notin> set (format_markdown_table t))"
proof -
  let ?fallback = "strip (replace_pipe t)"
  let ?hs = "headers_of (hd (table_lines t))"
  let ?fls = "formatted_lines ?hs (data_lines (table_lines t))"
  have fb: "\<exists>rows. ?fallback = join NL2 (map (join '' | '') rows)
          \<and> (\<forall>row \<in> set rows. \<forall>part \<in> set row. PIPE \<notin> set part)"
  proof -
    have "PIPE \<notin> set ?fallback"
      using replace_pipe_no_pipe[of t] by (metis in_set_stripD)
    then have "?fallback = join NL2 (map (join '' | '') [[?fallback]])
          \<and> (\<forall>row \<in> set [[?fallback]]. \<forall>part \<in> set row. PIPE \<notin> set part)" by simp
    then show ?thesis by blast
  qed
  have em: "\<exists>rows. [] = join NL2 (map (join '' | '') rows)
          \<and> (\<forall>row \<in> set rows. \<forall>part \<in> set row. PIPE \<notin> set part)"
    by (rule exI[of _ "[]"]) simp
  have rows: "\<exists>rows. ?fls = map (join '' | '') rows
          \<and> (\<forall>row \<in> set rows. \<forall>part \<in> set row. PIPE \<notin> set part)"
  proof (rule map_choice, rule ballI)
    fix fl assume "fl \<in> set ?fls"
    then obtain line where fr: "format_row ?hs line = Some fl"
      by (auto simp: formatted_lines_mem)
    let ?cells = "map strip (inner (split_pipe line))"
    have fl: "fl = join '' | '' (row_text ?hs ?cells)" using format_row_Some[OF fr] by simp
    have "\<forall>part \<in> set (row_text ?hs ?cells). PIPE \<notin> set part"
    proof
      fix part assume "part \<in> set (row_text ?hs ?cells)"
      then obtain cell where c: "cell \<in> set ?cells"
        and p: "part = cell \<or> (\<exists>h \<in> set ?hs. part = h @ '': '' @ cell)"
        using row_text_parts by blast
      have "PIPE \<notin> set cell" using c by (rule cells_no_pipe)
      then show "PIPE \<notin> set part" using p headers_of_no_pipe by auto
    qed
    with fl show "\<exists>r. fl = join '' | '' r \<and> (\<forall>part \<in> set r. PIPE \<notin> set part)" by blast
  qed
  have np: "PIPE \<notin> set ?fallback"
    using replace_pipe_no_pipe[of t] by (metis in_set_stripD)
  show ?thesis
  proof (cases "table_lines t = []")
    case True
    then have "format_markdown_table t = []" by (simp add: format_markdown_table_def)
    then show ?thesis using em by simp
  next
    case ne: False
    show ?thesis
    proof (cases "\<not> startswith_pipe (hd (table_lines t)) \<or> ?fls = []")
      case True
      then have "format_markdown_table t = ?fallback"
        using ne by (auto simp: format_markdown_table_def Let_def)
      then show ?thesis using fb np by simp
    next
      case False
      then have "format_markdown_table t = join NL2 ?fls"
        using ne by (auto simp: format_markdown_table_def Let_def)
      moreover from rows obtain rs where "?fls = map (join '' | '') rs"
        and "\<forall>row \<in> set rs. \<forall>part \<in> set row. PIPE \<notin> set part" by blast
      ultimately have "\<exists>rows. format_markdown_table t = join NL2 (map (join '' | '') rows)
          \<and> (\<forall>row \<in> set rows. \<forall>part \<in> set row. PIPE \<notin> set part)" by auto
      then show ?thesis using False ne by simp
    qed
  qed
qed

theorem pipes_only_between_parts_witness:
  "(\<exists>rows. ''A: 1 | B: 2'' = join NL2 (map (join '' | '') rows)
          \<and> (\<forall>row \<in> set rows. \<forall>part \<in> set row. PIPE \<notin> set part))
   \<and> \<not> startswith_pipe (hd (table_lines ''a | b''))
   \<and> PIPE \<notin> set (format_markdown_table ''a | b'')"
proof -
  have "format_markdown_table (''| A | B |'' @ [CHR 0x5C, CHR ''n''] @ ''| 1 | 2 |'') = ''A: 1 | B: 2''"
    by code_simp
  then have 1: "\<exists>rows. ''A: 1 | B: 2'' = join NL2 (map (join '' | '') rows)
          \<and> (\<forall>row \<in> set rows. \<forall>part \<in> set row. PIPE \<notin> set part)"
    using pipes_only_between_parts[of "''| A | B |'' @ [CHR 0x5C, CHR ''n''] @ ''| 1 | 2 |''"] by simp
  have b: "\<not> startswith_pipe (hd (table_lines ''a | b''))" by code_simp
  then have 2: "PIPE \<notin> set (format_markdown_table ''a | b'')"
    using pipes_only_between_parts[of "''a | b''"] by blast
  from 1 b 2 show ?thesis by (intro conjI)
qed







text \<open>
  C6 says that a table text whose first non-blank line does not start with a pipe, or that
  yields no formatted data row, is returned with every pipe replaced by a space, trimmed,
  and that no error is raised. The code breaks this at the text of the two characters
  backslash, \<^verbatim>\<open>n\<close>, which yields no formatted row: line 176 splits at these two
  characters, so the text is two empty lines, and line 178 returns the empty string,
  while the text with its pipes replaced and trimmed is the text itself.
\<close>

theorem separator_text_not_returned:
  "formatted_lines (headers_of (hd (table_lines [CHR 0x5C, CHR ''n''])))
      (data_lines (table_lines [CHR 0x5C, CHR ''n''])) = []
   \<and> format_markdown_table [CHR 0x5C, CHR ''n''] = []
   \<and> strip (replace_pipe [CHR 0x5C, CHR ''n'']) = [CHR 0x5C, CHR ''n'']"
  by code_simp

text \<open>For a table text with at least one non-blank line the two fallbacks of lines 192 and 217
  do return the text with every pipe replaced by a space, trimmed.\<close>

lemma fallback_replaces_pipes:
  assumes "table_lines t \<noteq> []"
    and "\<not> startswith_pipe (hd (table_lines t))
         \<or> formatted_lines (headers_of (hd (table_lines t))) (data_lines (table_lines t)) = []"
  shows "format_markdown_table t = strip (replace_pipe t)"
  using assms by (auto simp: format_markdown_table_def Let_def)

lemma fallback_replaces_pipes_example:
  "table_lines ''a | b'' \<noteq> [] \<and> \<not> startswith_pipe (hd (table_lines ''a | b''))
   \<and> format_markdown_table ''a | b'' = ''a   b''"
proof -
  have a: "table_lines ''a | b'' \<noteq> []" by code_simp
  have b: "\<not> startswith_pipe (hd (table_lines ''a | b''))" by code_simp
  have c: "strip (replace_pipe ''a | b'') = ''a   b''" by code_simp
  show ?thesis using fallback_replaces_pipes[OF a disjI1[OF b]] a b c by simp
qed

section \<open>Properties of the frontmatter pass\<close>

lemma find_end_frontmatter_None:
  "find_end_frontmatter i ls = None \<longleftrightarrow> (\<forall>l \<in> set ls. strip l \<noteq> ''---'')"
  by (induction ls arbitrary: i) auto

text \<open>
  C5, as stated: the pass triggers only when the first line is exactly \<^verbatim>\<open>---\<close>, and a
  first line with surrounding whitespace is not treated as frontmatter. It fails on a
  document whose first line is \<^verbatim>\<open>---\<close> behind a space and whose third line is
  \<^verbatim>\<open>---\<close> between spaces: lines 20 and 24 compare the trimmed lines, and the block is
  removed.
\<close>

theorem frontmatter_exact_counterexample:
  "hd (splitlines ('' ---'' @ [LF] @ ''t: x'' @ [LF] @ '' --- '' @ [LF] @ ''body'')) = '' ---''
   \<and> remove_frontmatter ('' ---'' @ [LF] @ ''t: x'' @ [LF] @ '' --- '' @ [LF] @ ''body'') = ''body''"
  by code_simp

text \<open>
  C5, amended: the pass changes the content only when the first line, trimmed, is
  \<^verbatim>\<open>---\<close> and a later line, trimmed, is \<^verbatim>\<open>---\<close> too; when no later line is, the
  content is left exactly as it was.
\<close>

theorem frontmatter_trigger:
  "(remove_frontmatter c \<noteq> c \<longrightarrow>
      splitlines c \<noteq> [] \<and> strip (hd (splitlines c)) = ''---''
      \<and> (\<exists>l \<in> set (tl (splitlines c)). strip l = ''---''))
   \<and> ((\<forall>l \<in> set (tl (splitlines c)). strip l \<noteq> ''---'') \<longrightarrow> remove_frontmatter c = c)"
proof (intro conjI impI)
  assume a: "\<forall>l \<in> set (tl (splitlines c)). strip l \<noteq> ''---''"
  then have "find_end_frontmatter 1 (tl (splitlines c)) = None"
    by (simp only: find_end_frontmatter_None)
  then show "remove_frontmatter c = c" by (simp add: remove_frontmatter_def Let_def)
next
  assume n: "remove_frontmatter c \<noteq> c"
  then show "splitlines c \<noteq> []" by (auto simp: remove_frontmatter_def Let_def)
  from n show "strip (hd (splitlines c)) = ''---''"
    by (auto simp: remove_frontmatter_def Let_def split: if_splits)
  from n have "find_end_frontmatter 1 (tl (splitlines c)) \<noteq> None"
    by (auto simp: remove_frontmatter_def Let_def split: if_splits option.splits)
  then show "\<exists>l \<in> set (tl (splitlines c)). strip l = ''---''"
    by (simp only: find_end_frontmatter_None) blast
qed

theorem frontmatter_trigger_witness:
  "remove_frontmatter (''---'' @ [LF] @ ''body'') = ''---'' @ [LF] @ ''body''
   \<and> remove_frontmatter (''---'' @ [LF] @ ''t: x'' @ [LF] @ ''---'' @ [LF] @ ''body'') = ''body''
   \<and> strip (hd (splitlines (''---'' @ [LF] @ ''t: x'' @ [LF] @ ''---'' @ [LF] @ ''body''))) = ''---''"
proof -
  have a: "\<forall>l \<in> set (tl (splitlines (''---'' @ [LF] @ ''body''))). strip l \<noteq> ''---''"
    by code_simp
  have 1: "remove_frontmatter (''---'' @ [LF] @ ''body'') = ''---'' @ [LF] @ ''body''"
    using frontmatter_trigger[of "''---'' @ [LF] @ ''body''"] a by simp
  have b: "remove_frontmatter (''---'' @ [LF] @ ''t: x'' @ [LF] @ ''---'' @ [LF] @ ''body'') = ''body''"
    by code_simp
  then have "remove_frontmatter (''---'' @ [LF] @ ''t: x'' @ [LF] @ ''---'' @ [LF] @ ''body'')
      \<noteq> ''---'' @ [LF] @ ''t: x'' @ [LF] @ ''---'' @ [LF] @ ''body''" by simp
  then have 2: "strip (hd (splitlines (''---'' @ [LF] @ ''t: x'' @ [LF] @ ''---'' @ [LF] @ ''body''))) = ''---''"
    using frontmatter_trigger[of "''---'' @ [LF] @ ''t: x'' @ [LF] @ ''---'' @ [LF] @ ''body''"]
    by simp
  from 1 b 2 show ?thesis by simp
qed

section \<open>Properties of the corpus builder\<close>

lemma map_filter_append:
  "List.map_filter f (xs @ ys) = List.map_filter f xs @ List.map_filter f ys"
  by (simp add: List.map_filter_def)

lemma plain_50:
  "extract_text_from_markdown Some (replicate 50 (CHR ''x'')) = replicate 50 (CHR ''x'')"
  by code_simp

lemma plain_51:
  "extract_text_from_markdown Some (replicate 51 (CHR ''x'')) = replicate 51 (CHR ''x'')"
  by code_simp

lemma plain_50_length: "length (strip (replicate 50 (CHR ''x''))) = 50"
  by code_simp

lemma plain_51_length: "length (strip (replicate 51 (CHR ''x''))) = 51"
  by code_simp

text \<open>
  C7. For a Markdown file that can be read, a record is appended at its place in the
  collection if and only if its cleaned content is non-empty and the length of the
  trimmed cleaned content is greater than 50; the record holds the relative path and the
  cleaned content. So a trimmed length of exactly 50 gives no record and 51 gives one.
\<close>

theorem record_emitted_iff:
  assumes "suffix ''.md'' (file_name f)" and "read_result f = Some markdown_content"
  shows "process_documentation render (before @ [f] @ after) =
           process_documentation render before
           @ (if extract_text_from_markdown render markdown_content \<noteq> []
                 \<and> 50 < length (strip (extract_text_from_markdown render markdown_content))
              then [\<lparr>file_path = relative_path f,
                     content = extract_text_from_markdown render markdown_content\<rparr>]
              else [])
           @ process_documentation render after"
  using assms
  by (simp add: process_documentation_def map_filter_append process_file_def Let_def
      List.map_filter_def)

theorem record_emitted_iff_witness:
  "process_documentation Some
     [\<lparr>file_name = ''a.md'', relative_path = ''a.md'',
       read_result = Some (replicate 50 (CHR ''x''))\<rparr>] = []
   \<and> process_documentation Some
     [\<lparr>file_name = ''b.md'', relative_path = ''d/b.md'',
       read_result = Some (replicate 51 (CHR ''x''))\<rparr>]
     = [\<lparr>file_path = ''d/b.md'', content = replicate 51 (CHR ''x'')\<rparr>]"
proof -
  have e: "process_documentation Some [] = []"
    by (simp add: process_documentation_def List.map_filter_def)
  have 1: "process_documentation Some
     [\<lparr>file_name = ''a.md'', relative_path = ''a.md'',
       read_result = Some (replicate 50 (CHR ''x''))\<rparr>] = []"
    using record_emitted_iff[of "\<lparr>file_name = ''a.md'', relative_path = ''a.md'',
        read_result = Some (replicate 50 (CHR ''x''))\<rparr>" "replicate 50 (CHR ''x'')" Some "[]" "[]"]
    by (simp add: e plain_50 plain_50_length suffix_def)
  have 2: "process_documentation Some
     [\<lparr>file_name = ''b.md'', relative_path = ''d/b.md'',
       read_result = Some (replicate 51 (CHR ''x''))\<rparr>]
     = [\<lparr>file_path = ''d/b.md'', content = replicate 51 (CHR ''x'')\<rparr>]"
    using record_emitted_iff[of "\<lparr>file_name = ''b.md'', relative_path = ''d/b.md'',
        read_result = Some (replicate 51 (CHR ''x''))\<rparr>" "replicate 51 (CHR ''x'')" Some "[]" "[]"]
    by (simp add: e plain_51 plain_51_length suffix_def)
  from 1 2 show ?thesis by simp
qed

section \<open>Properties of the final cleanup\<close>

text \<open>
  C10 says that no line of the normalizer's output is blank or untrimmed. The code breaks
  this at the document of the two lines \<^verbatim>\<open>a\<close> and \<^verbatim>\<open>nnb\<close>, with a rendering that
  returns this plain paragraph unchanged. Line 161 joins the two trimmed lines with a
  backslash and an \<^verbatim>\<open>n\<close>, which gives a backslash followed by three letters
  \<^verbatim>\<open>n\<close>; line 165 replaces them by two line feeds. The output has a blank second line.
\<close>

theorem cleanup_makes_blank_line:
  "extract_text_from_markdown Some (''a'' @ [LF] @ ''nnb'') = ''a'' @ [LF, LF] @ ''b''
   \<and> splitlines (extract_text_from_markdown Some (''a'' @ [LF] @ ''nnb'')) = [''a'', [], ''b'']"
  by code_simp

section \<open>Properties of table extraction and restoration\<close>












lemma pipe_line_has_pipe: "is_pipe_line l \<Longrightarrow> PIPE \<in> set l"
proof -
  assume "is_pipe_line l"
  then have "PIPE \<in> set (strip l)"
    unfolding is_pipe_line_def startswith_pipe_def by (cases "strip l") auto
  then show ?thesis by (rule in_set_stripD)
qed

lemma loop_skip:
  "\<forall>l \<in> set xs. \<not> is_pipe_line l \<Longrightarrow>
   extract_tables_loop (xs @ ys) tp pc = extract_tables_loop ys tp pc"
  by (induction xs) auto

lemma loop_block:
  assumes "T \<noteq> []" and "\<forall>l \<in> set T. is_pipe_line l"
    and "rest = [] \<or> \<not> is_pipe_line (hd rest)"
  shows "extract_tables_loop (T @ rest) tp pc =
         extract_tables_loop rest
           (dict_set (placeholder (length tp)) (format_markdown_table (join NL2 T)) tp)
           (replace_first (join NL2 T) (placeholder (length tp)) pc)"
proof -
  from assms(1) obtain l T' where T: "T = l # T'" by (cases T) auto
  have r: "takeWhile is_pipe_line rest = []" "dropWhile is_pipe_line rest = rest"
    using assms(3) by (cases rest; auto)+
  have t: "takeWhile is_pipe_line (T' @ rest) = T'"
    using assms(2) r by (simp add: T takeWhile_append2)
  have d: "dropWhile is_pipe_line (T' @ rest) = rest"
    using assms(2) r by (simp add: T dropWhile_append2)
  have "is_pipe_line l" using assms(2) T by simp
  then show ?thesis unfolding T by (simp add: t d Let_def)
qed

lemma join_append:
  "xs \<noteq> [] \<Longrightarrow> ys \<noteq> [] \<Longrightarrow> join s (xs @ ys) = join s xs @ s @ join s ys"
proof (induction s xs rule: join.induct)
  case (2 s x)
  then show ?case by (cases ys) auto
qed auto

lemma join_no_pipe:
  "\<forall>l \<in> set ls. PIPE \<notin> set l \<Longrightarrow> PIPE \<notin> set sep \<Longrightarrow> PIPE \<notin> set (join sep ls)"
  by (induction sep ls rule: join.induct) auto

lemma join_has_pipe: "T \<noteq> [] \<Longrightarrow> PIPE \<in> set (hd T) \<Longrightarrow> PIPE \<in> set (join sep T)"
  by (cases T; cases "tl T") auto

lemma first_pipe_prefix:
  assumes "PIPE \<in> set t" and "prefix t w"
  shows "takeWhile (\<lambda>x. x \<noteq> PIPE) w = takeWhile (\<lambda>x. x \<noteq> PIPE) t"
proof -
  from assms(2) obtain z where "w = t @ z" by (auto simp: prefix_def)
  then show ?thesis using assms(1) by (simp add: takeWhile_append1)
qed

lemma replace_first_at:
  assumes "PIPE \<notin> set u" and "PIPE \<in> set t"
  shows "replace_first t new (u @ t @ v) = u @ new @ v"
  using assms(1)
proof (induction u)
  case Nil
  from assms(2) obtain c cs where "t @ v = c # cs" by (cases t) auto
  moreover have "prefix t (t @ v)" by simp
  ultimately have "replace_first t new (t @ v) = new @ drop (length t) (t @ v)"
    by (metis replace_first.simps(2))
  then show ?case by simp
next
  case (Cons a u)
  have "\<not> prefix t (a # u @ t @ v)"
  proof
    assume p: "prefix t (a # u @ t @ v)"
    have "takeWhile (\<lambda>x. x \<noteq> PIPE) ((a # u) @ t @ v)
          = (a # u) @ takeWhile (\<lambda>x. x \<noteq> PIPE) (t @ v)"
      using Cons.prems by (intro takeWhile_append2) auto
    moreover have "takeWhile (\<lambda>x. x \<noteq> PIPE) (t @ v) = takeWhile (\<lambda>x. x \<noteq> PIPE) t"
      using assms(2) by (simp add: takeWhile_append1)
    moreover have "takeWhile (\<lambda>x. x \<noteq> PIPE) (a # u @ t @ v) = takeWhile (\<lambda>x. x \<noteq> PIPE) t"
      using assms(2) p by (rule first_pipe_prefix)
    ultimately have "(a # u) @ takeWhile (\<lambda>x. x \<noteq> PIPE) t = takeWhile (\<lambda>x. x \<noteq> PIPE) t"
      by simp
    then have "length ((a # u) @ takeWhile (\<lambda>x. x \<noteq> PIPE) t)
               = length (takeWhile (\<lambda>x. x \<noteq> PIPE) t)" by simp
    then show False by simp
  qed
  then show ?case using Cons by simp
qed

lemma join_frame:
  assumes "A \<noteq> []" and "mid \<noteq> []" and "B \<noteq> []"
  shows "join NL2 (pre @ A @ mid @ B @ post) =
         (if pre = [] then [] else join NL2 pre @ NL2) @ join NL2 A @ NL2 @ join NL2 mid @ NL2
         @ join NL2 B @ (if post = [] then [] else NL2 @ join NL2 post)"
proof -
  have 1: "join NL2 (B @ post) = join NL2 B @ (if post = [] then [] else NL2 @ join NL2 post)"
    using assms(3) by (cases "post = []") (simp_all add: join_append)
  have 2: "join NL2 (mid @ B @ post) = join NL2 mid @ NL2 @ join NL2 (B @ post)"
    using assms(2,3) by (simp add: join_append)
  have 3: "join NL2 (A @ mid @ B @ post) = join NL2 A @ NL2 @ join NL2 (mid @ B @ post)"
    using assms(1,2) by (simp add: join_append)
  have 4: "join NL2 (pre @ A @ mid @ B @ post)
           = (if pre = [] then [] else join NL2 pre @ NL2) @ join NL2 (A @ mid @ B @ post)"
    using assms(1) by (cases "pre = []") (simp_all add: join_append)
  show ?thesis unfolding 4 3 2 1 by simp
qed

lemma placeholder_0: "placeholder 0 = ''__TABLE_PLACEHOLDER_0__''"
  by code_simp

lemma placeholder_1: "placeholder (Suc 0) = ''__TABLE_PLACEHOLDER_1__''"
  by code_simp

text \<open>
  C2, as stated: of two table blocks with the same text only the first is substituted, one
  placeholder is created, and the raw pipe text of the second reaches the output. It fails
  on a document with the table \<^verbatim>\<open>| A |\<close>, \<^verbatim>\<open>| 1 |\<close> twice, after an introduction and
  around a paragraph: line 128 numbers the placeholder by the size of the dictionary, so
  two are created, and the replacement of line 133 finds the second block, the first
  occurrence left after the first block was replaced. With a rendering that returns the
  text unchanged, the output holds the formatted table twice and no pipe.
\<close>

theorem repeated_table_counterexample:
  "fst (extract_tables (clean_markup
      (''intro'' @ [LF, LF] @ ''| A |'' @ [LF] @ ''| 1 |'' @ [LF, LF] @ ''text'' @ [LF, LF]
       @ ''| A |'' @ [LF] @ ''| 1 |'' @ [LF])))
     = [(''__TABLE_PLACEHOLDER_0__'', ''A: 1''), (''__TABLE_PLACEHOLDER_1__'', ''A: 1'')]
   \<and> snd (extract_tables (clean_markup
      (''intro'' @ [LF, LF] @ ''| A |'' @ [LF] @ ''| 1 |'' @ [LF, LF] @ ''text'' @ [LF, LF]
       @ ''| A |'' @ [LF] @ ''| 1 |'' @ [LF])))
     = join NL2 [''intro'', [], ''__TABLE_PLACEHOLDER_0__'', [], ''text'', [],
                 ''__TABLE_PLACEHOLDER_1__'']
   \<and> extract_text_from_markdown Some
      (''intro'' @ [LF, LF] @ ''| A |'' @ [LF] @ ''| 1 |'' @ [LF, LF] @ ''text'' @ [LF, LF]
       @ ''| A |'' @ [LF] @ ''| 1 |'' @ [LF])
     = join NL2 [''intro'', [], ''A: 1'', [], ''text'', [], ''A: 1'']"
  by code_simp

text \<open>
  C2, amended: when the lines of the content are non-table lines without pipes, a table
  block, one or more non-table lines without pipes, the same table block again, and
  non-table lines, then two placeholders are created, numbered 0 and 1, both mapped to the
  formatted table, and both blocks are substituted: the content after extraction is the
  same lines with the two tokens in place of the two blocks.
\<close>

theorem repeated_table_both_substituted:
  assumes lines: "split_nl c = pre @ T @ mid @ T @ post"
    and T: "T \<noteq> []" "\<forall>l \<in> set T. is_pipe_line l"
    and mid: "mid \<noteq> []" "\<forall>l \<in> set mid. PIPE \<notin> set l"
    and pre: "\<forall>l \<in> set pre. PIPE \<notin> set l"
    and post: "\<forall>l \<in> set post. \<not> is_pipe_line l"
  shows "extract_tables c =
           ([(''__TABLE_PLACEHOLDER_0__'', format_markdown_table (join NL2 T)),
             (''__TABLE_PLACEHOLDER_1__'', format_markdown_table (join NL2 T))],
            join NL2 (pre @ [''__TABLE_PLACEHOLDER_0__''] @ mid @ [''__TABLE_PLACEHOLDER_1__'']
                      @ post))"
proof -
  define tt where "tt = join NL2 T"
  define f where "f = format_markdown_table tt"
  define p0 where "p0 = ''__TABLE_PLACEHOLDER_0__''"
  define p1 where "p1 = ''__TABLE_PLACEHOLDER_1__''"
  define U where "U = (if pre = [] then [] else join NL2 pre @ NL2)"
  define W where "W = (if post = [] then [] else NL2 @ join NL2 post)"
  define M where "M = join NL2 mid"
  have np: "\<And>l. PIPE \<notin> set l \<Longrightarrow> \<not> is_pipe_line l" using pipe_line_has_pipe by blast
  have pre': "\<forall>l \<in> set pre. \<not> is_pipe_line l" using pre np by blast
  have mid': "\<forall>l \<in> set mid. \<not> is_pipe_line l" using mid(2) np by blast
  have nl: "PIPE \<notin> set NL2" by (simp add: NL2_def)
  have "c = join NL2 (pre @ T @ mid @ T @ post)" using join_split_nl[of c] lines by simp
  then have c: "c = U @ tt @ (NL2 @ M @ NL2 @ tt @ W)"
    unfolding join_frame[OF T(1) mid(1) T(1)] U_def W_def M_def tt_def by simp
  have U: "PIPE \<notin> set U" unfolding U_def using join_no_pipe[OF pre nl] nl by simp
  have M: "PIPE \<notin> set M" unfolding M_def using mid(2) nl by (rule join_no_pipe)
  have "PIPE \<in> set (hd T)" using T by (simp add: pipe_line_has_pipe)
  with T(1) have tt: "PIPE \<in> set tt" unfolding tt_def by (rule join_has_pipe)
  have c1: "replace_first tt p0 c = (U @ p0 @ NL2 @ M @ NL2) @ tt @ W"
    unfolding c using replace_first_at[OF U tt, of p0 "NL2 @ M @ NL2 @ tt @ W"] by simp
  have "PIPE \<notin> set p0" unfolding p0_def by simp
  then have U1: "PIPE \<notin> set (U @ p0 @ NL2 @ M @ NL2)" using U M nl by simp
  have c2: "replace_first tt p1 ((U @ p0 @ NL2 @ M @ NL2) @ tt @ W)
            = (U @ p0 @ NL2 @ M @ NL2) @ p1 @ W"
    using U1 tt by (rule replace_first_at)
  have "join NL2 (pre @ [p0] @ mid @ [p1] @ post)
        = U @ join NL2 [p0] @ NL2 @ M @ NL2 @ join NL2 [p1] @ W"
    unfolding U_def W_def M_def by (rule join_frame) (simp_all add: mid(1))
  then have out: "join NL2 (pre @ [p0] @ mid @ [p1] @ post) = (U @ p0 @ NL2 @ M @ NL2) @ p1 @ W"
    by simp
  have r1: "mid @ T @ post = [] \<or> \<not> is_pipe_line (hd (mid @ T @ post))"
    using mid(1) mid' by (cases mid) auto
  have r2: "post = [] \<or> \<not> is_pipe_line (hd post)" using post by (cases post) auto
  have ne: "p0 \<noteq> p1" unfolding p0_def p1_def by simp
  have e1: "placeholder (length ([] :: (string \<times> string) list)) = p0"
    unfolding p0_def by (simp add: placeholder_0)
  have e2: "placeholder (length [(p0, f)]) = p1"
    unfolding p1_def by (simp add: placeholder_1)
  have "extract_tables c = extract_tables_loop (pre @ T @ mid @ T @ post) [] c"
    by (simp add: extract_tables_def lines)
  also have "\<dots> = extract_tables_loop (T @ mid @ T @ post) [] c"
    using pre' by (rule loop_skip)
  also have "\<dots> = extract_tables_loop (mid @ T @ post)
                      (dict_set (placeholder (length ([] :: (string \<times> string) list))) f [])
                      (replace_first tt (placeholder (length ([] :: (string \<times> string) list))) c)"
    unfolding f_def tt_def using T r1 by (rule loop_block)
  also have "\<dots> = extract_tables_loop (mid @ T @ post) [(p0, f)] (replace_first tt p0 c)"
    unfolding e1 by simp
  also have "\<dots> = extract_tables_loop (T @ post) [(p0, f)] (replace_first tt p0 c)"
    using mid' by (rule loop_skip)
  also have "\<dots> = extract_tables_loop post
                      (dict_set (placeholder (length [(p0, f)])) f [(p0, f)])
                      (replace_first tt (placeholder (length [(p0, f)])) (replace_first tt p0 c))"
    unfolding f_def tt_def using T r2 by (rule loop_block)
  also have "\<dots> = extract_tables_loop post [(p0, f), (p1, f)]
                      (replace_first tt p1 (replace_first tt p0 c))"
    unfolding e2 using ne by simp
  also have "\<dots> = extract_tables_loop (post @ []) [(p0, f), (p1, f)]
                      (replace_first tt p1 (replace_first tt p0 c))"
    by simp
  also have "\<dots> = extract_tables_loop [] [(p0, f), (p1, f)]
                      (replace_first tt p1 (replace_first tt p0 c))"
    using post by (rule loop_skip)
  also have "\<dots> = ([(p0, f), (p1, f)], replace_first tt p1 (replace_first tt p0 c))"
    by (rule extract_tables_loop.simps(1))
  also have "\<dots> = ([(p0, f), (p1, f)], join NL2 (pre @ [p0] @ mid @ [p1] @ post))"
    unfolding c1 c2 out by (rule refl)
  finally show ?thesis unfolding p0_def p1_def f_def tt_def .
qed

theorem repeated_table_both_substituted_witness:
  "extract_tables (join NL2 [''intro'', [], ''| A |'', ''| 1 |'', [], ''text'', [], ''| A |'', ''| 1 |''])
   = ([(''__TABLE_PLACEHOLDER_0__'', ''A: 1''), (''__TABLE_PLACEHOLDER_1__'', ''A: 1'')],
      join NL2 [''intro'', [], ''__TABLE_PLACEHOLDER_0__'', [], ''text'', [],
                ''__TABLE_PLACEHOLDER_1__''])"
proof -
  have l: "split_nl (join NL2 [''intro'', [], ''| A |'', ''| 1 |'', [], ''text'', [], ''| A |'', ''| 1 |''])
           = [''intro'', []] @ [''| A |'', ''| 1 |''] @ [[], ''text'', []] @ [''| A |'', ''| 1 |''] @ []"
    by code_simp
  have T: "[''| A |'', ''| 1 |''] \<noteq> []" "\<forall>l \<in> set [''| A |'', ''| 1 |'']. is_pipe_line l"
    by code_simp+
  have m: "[[], ''text'', []] \<noteq> []" "\<forall>l \<in> set [[], ''text'', []]. PIPE \<notin> set l"
    by code_simp+
  have p: "\<forall>l \<in> set [''intro'', []]. PIPE \<notin> set l" by code_simp
  have q: "\<forall>l \<in> set []. \<not> is_pipe_line l" by simp
  have f: "format_markdown_table (join NL2 [''| A |'', ''| 1 |'']) = ''A: 1''" by code_simp
  from repeated_table_both_substituted[OF l T m p q] show ?thesis unfolding f by simp
qed




section \<open>Idempotence\<close>




lemma split_nl_plain: "BSL \<notin> set s \<Longrightarrow> split_nl s = [s]"
  by (induction s rule: split_nl.induct) auto

lemma last_dropWhile: "dropWhile P xs \<noteq> [] \<Longrightarrow> last (dropWhile P xs) = last xs"
  by (induction xs) (auto split: if_splits)

lemma strip_strip: "strip (strip s) = strip s"
proof -
  define a where "a = dropWhile isspace s"
  define b where "b = dropWhile isspace (rev a)"
  have s: "strip s = rev b" unfolding strip_def a_def b_def by simp
  have "dropWhile isspace (rev b) = rev b"
  proof (cases "b = []")
    case True
    then show ?thesis by simp
  next
    case False
    then have "last b = last (rev a)" unfolding b_def by (rule last_dropWhile)
    moreover have ane: "a \<noteq> []" using False unfolding b_def by auto
    ultimately have "last b = hd a" by (simp add: last_rev)
    moreover have "\<not> isspace (hd a)" using ane unfolding a_def by (rule hd_dropWhile)
    ultimately have "\<not> isspace (hd (rev b))" using False by (simp add: hd_rev)
    then show ?thesis by (cases "rev b") auto
  qed
  then have "strip (rev b) = rev (dropWhile isspace b)" unfolding strip_def by simp
  also have "\<dots> = rev b" unfolding b_def by simp
  finally show ?thesis unfolding s .
qed












text \<open>The output of the normalizer is trimmed as a whole (line 169).\<close>

lemma output_trimmed:
  "strip (extract_text_from_markdown render x) = extract_text_from_markdown render x"
  unfolding extract_text_from_markdown_def final_cleanup_def
  by (simp add: Let_def strip_strip split: prod.splits)




section \<open>The fallback on texts without a backslash\<close>

text \<open>A text without a backslash holds no separator of line 176, so when it has no non-blank
  line it is blank, and the guard of line 178 agrees with the fallback: for such texts
  the formatter returns the text with every pipe replaced by a space, trimmed, whenever
  the first non-blank line does not start with a pipe or no formatted row results.\<close>

lemma blank_without_backslash:
  assumes "BSL \<notin> set t" and "table_lines t = []"
  shows "strip (replace_pipe t) = []"
proof -
  have "BSL \<notin> set (strip t)" using assms(1) by (metis in_set_stripD)
  then have "split_nl (strip t) = [strip t]" by (rule split_nl_plain)
  with assms(2) have "strip (strip t) = []" by (simp add: table_lines_def split: if_splits)
  then have "strip t = []" by (simp add: strip_strip)
  then have "\<forall>c \<in> set t. isspace c" by (simp only: strip_eq_Nil_iff)
  then have "\<forall>c \<in> set t. isspace c \<or> c = PIPE" by simp
  then show ?thesis by (simp only: fallback_Nil_iff)
qed

lemma fallback_without_backslash:
  assumes "BSL \<notin> set t"
    and "(table_lines t \<noteq> [] \<and> \<not> startswith_pipe (hd (table_lines t)))
         \<or> formatted_lines (headers_of (hd (table_lines t))) (data_lines (table_lines t)) = []"
  shows "format_markdown_table t = strip (replace_pipe t)"
proof (cases "table_lines t = []")
  case True
  then have "format_markdown_table t = []" by (simp add: format_markdown_table_def)
  then show ?thesis using blank_without_backslash[OF assms(1) True] by simp
next
  case False
  then show ?thesis using assms(2) by (auto simp: format_markdown_table_def Let_def)
qed

end
